theory Spec2Isabelle
  imports Main
begin

section \<open>Relay: the service of one shell\<close>

text \<open>
  A shallow embedding of \<^verbatim>\<open>srv/service.go\<close> (\<^verbatim>\<open>Make\<close>, \<^verbatim>\<open>ListenAndServe\<close>,
  \<^verbatim>\<open>HandleConnection\<close>) and of \<^verbatim>\<open>resolveShell\<close> and \<^verbatim>\<open>parseServiceArg\<close> in \<^verbatim>\<open>main.go\<close>.
  Strings are byte lists. Every call the handler makes on the outside world (socket,
  temporary directory, child process) is a function on an explicit state that also
  appends the call and its result to a trace, so that the order of effects can be
  stated. Logging through \<^verbatim>\<open>s.log\<close> has no influence on control flow and is left out.
\<close>

subsection \<open>Errors\<close>

text \<open>
  Go's \<^verbatim>\<open>error\<close> values: the sentinel \<^verbatim>\<open>io.EOF\<close>, a plain error with a message, and an
  error wrapping another one (\<^verbatim>\<open>fmt.Errorf("...: %w", err)\<close>). \<^verbatim>\<open>err != io.EOF\<close> compares
  with the sentinel itself, \<^verbatim>\<open>errors.Is(err, io.EOF)\<close> follows the chain of wrapped errors.
\<close>

datatype go_error = EOF | ErrNotExist | ErrExist | ErrorString string | Wrapped string go_error

fun Error :: "go_error \<Rightarrow> string" where
  "Error EOF = ''EOF''"
| "Error ErrNotExist = ''file does not exist''"
| "Error ErrExist = ''file already exists''"
| "Error (ErrorString m) = m"
| "Error (Wrapped m e) = m @ '': '' @ Error e"

fun errors_Is :: "go_error \<Rightarrow> go_error \<Rightarrow> bool" where
  "errors_Is (Wrapped m e) target = (Wrapped m e = target \<or> errors_Is e target)"
| "errors_Is e target = (e = target)"

subsection \<open>Commands\<close>

text \<open>
  \<^verbatim>\<open>exec.Cmd\<close>: the fields the handler sets. \<^verbatim>\<open>Env\<close> is a slice, and a nil slice
  (\<open>None\<close>) is not an empty one: with a nil \<^verbatim>\<open>Env\<close> the child runs in the environment of
  the current process (package \<^verbatim>\<open>os/exec\<close>).
\<close>

record Cmd =
  Path :: string
  Args :: "string list"
  Env :: "string list option"

definition CommandContext :: "string \<Rightarrow> string list \<Rightarrow> Cmd" where
  "CommandContext name arg = \<lparr>Path = name, Args = name # arg, Env = None\<rparr>"

text \<open>
  The built-in \<^verbatim>\<open>append(s, xs...)\<close>: appending no element to a nil slice gives the nil
  slice back.
\<close>

fun go_append :: "'a list option \<Rightarrow> 'a list \<Rightarrow> 'a list option" where
  "go_append None [] = None"
| "go_append None (x # xs) = Some (x # xs)"
| "go_append (Some ys) xs = Some (ys @ xs)"

text \<open>The environment a started child sees, given the parent's.\<close>

definition cmd_environ :: "string list \<Rightarrow> Cmd \<Rightarrow> string list" where
  "cmd_environ parent c = (case Env c of None \<Rightarrow> parent | Some e \<Rightarrow> e)"

text \<open>
  What starting a command leads to: \<^verbatim>\<open>cmd.Start()\<close> fails, or the child runs, its
  standard output and standard error are read to their ends and \<^verbatim>\<open>cmd.Wait()\<close> reports
  its exit (\<open>None\<close> for status 0).
\<close>

datatype proc_outcome = StartFails go_error | Runs string string "go_error option"

subsection \<open>The state a handler works on\<close>

datatype event =
    Recv string "go_error option"
  | Send string
  | Created string "string \<rightharpoonup> string"
  | CreateFailed go_error
  | Appended string string "go_error option"
  | Closed string
  | Removed string
  | Started Cmd "string list" "string \<rightharpoonup> string" "go_error option"
  | Exited string string "go_error option"
  | Hangup

text \<open>
  \<^item> \<open>pending\<close>, \<open>ending\<close>: the bytes the peer sends that the buffered reader has not
    handed out yet, and the error the socket reports after them;
  \<^item> \<open>files\<close>: the temporary directory, file name to content;
  \<^item> \<open>temps\<close>: what the coming attempts of \<^verbatim>\<open>os.CreateTemp\<close> meet, a failure or the random
    part of a name;
  \<^item> \<open>wfaults\<close>: the outcome of the coming \<^verbatim>\<open>WriteString\<close> calls, \<open>None\<close> for success,
    \<open>Some (n, e)\<close> for error \<open>e\<close> after \<open>n\<close> bytes; calls beyond the list succeed;
  \<^item> \<open>run\<close>, \<open>spawned\<close>: the behaviour of the k-th child process, as a function of its
    command, its environment and the files it finds; and the number of children so far;
  \<^item> \<open>environ\<close>: the environment of the relay process itself;
  \<^item> \<open>deferred\<close>: the names whose removal the handler has deferred, last first;
  \<^item> \<open>trace\<close>: the calls made so far, oldest first.
\<close>

record state =
  pending :: string
  ending :: go_error
  files :: "string \<rightharpoonup> string"
  temps :: "(go_error + string) list"
  wfaults :: "(nat \<times> go_error) option list"
  run :: "nat \<Rightarrow> Cmd \<Rightarrow> string list \<Rightarrow> (string \<rightharpoonup> string) \<Rightarrow> proc_outcome"
  spawned :: nat
  environ :: "string list"
  deferred :: "string list"
  trace :: "event list"

definition emit :: "event \<Rightarrow> state \<Rightarrow> state" where
  "emit e w = w\<lparr>trace := trace w @ [e]\<rparr>"

text \<open>The events between an earlier state and a later one.\<close>

definition emitted :: "state \<Rightarrow> state \<Rightarrow> event list" where
  "emitted w w' = drop (length (trace w)) (trace w')"

abbreviation NL :: char where
  "NL \<equiv> CHR 0x0A"

subsection \<open>The socket\<close>

text \<open>The first line of a byte sequence, with its newline, and what follows it.\<close>

fun cut_line :: "string \<Rightarrow> (string \<times> string) option" where
  "cut_line [] = None"
| "cut_line (c # cs) =
     (if c = NL then Some ([c], cs)
      else (case cut_line cs of None \<Rightarrow> None | Some (l, r) \<Rightarrow> Some (c # l, r)))"

text \<open>
  \<^verbatim>\<open>reader.ReadString('\n')\<close>: the data up to and including the first newline; when the
  input ends before one, the data read so far together with the error.
\<close>

definition reader_ReadString :: "state \<Rightarrow> (string \<times> go_error option) \<times> state" where
  "reader_ReadString w =
     (case cut_line (pending w) of
        Some (line, rest) \<Rightarrow> ((line, None), emit (Recv line None) (w\<lparr>pending := rest\<rparr>))
      | None \<Rightarrow>
          ((pending w, Some (ending w)),
           emit (Recv (pending w) (Some (ending w))) (w\<lparr>pending := []\<rparr>)))"

text \<open>
  \<^verbatim>\<open>conn.Write\<close> and \<^verbatim>\<open>fmt.Fprintf(conn, ...)\<close>; the handler ignores their results, so the
  trace records the attempt.
\<close>

definition conn_Write :: "string \<Rightarrow> state \<Rightarrow> state" where
  "conn_Write b w = emit (Send b) w"

definition conn_Close :: "state \<Rightarrow> state" where
  "conn_Close w = emit Hangup w"

subsection \<open>The spool file\<close>

text \<open>
  \<^verbatim>\<open>os.CreateTemp("", "relay-script-*")\<close>: the name is the pattern with a random string in
  place of the star; a name that exists already is passed over (the file is opened with
  \<^verbatim>\<open>O_EXCL\<close>) and the next one tried, until the attempts run out.
\<close>

fun pick_temp :: "(string \<rightharpoonup> string) \<Rightarrow> (go_error + string) list
    \<Rightarrow> (go_error + string) \<times> (go_error + string) list" where
  "pick_temp fs [] = (Inl ErrExist, [])"
| "pick_temp fs (Inl e # ts) = (Inl e, ts)"
| "pick_temp fs (Inr r # ts) =
     (if fs (''/tmp/relay-script-'' @ r) = None then (Inr (''/tmp/relay-script-'' @ r), ts)
      else pick_temp fs ts)"

definition os_CreateTemp :: "state \<Rightarrow> (go_error + string) \<times> state" where
  "os_CreateTemp w =
     (case pick_temp (files w) (temps w) of
        (Inl err, ts) \<Rightarrow> (Inl err, emit (CreateFailed err) (w\<lparr>temps := ts\<rparr>))
      | (Inr name, ts) \<Rightarrow>
          (Inr name,
           emit (Created name (files w)) (w\<lparr>temps := ts, files := (files w)(name \<mapsto> [])\<rparr>)))"

definition file_append :: "string \<Rightarrow> string \<Rightarrow> (string \<rightharpoonup> string) \<Rightarrow> (string \<rightharpoonup> string)" where
  "file_append name b fs = (case fs name of None \<Rightarrow> fs | Some old \<Rightarrow> fs(name \<mapsto> old @ b))"

definition file_WriteString :: "string \<Rightarrow> string \<Rightarrow> state \<Rightarrow> go_error option \<times> state" where
  "file_WriteString name line w =
     (case wfaults w of
        Some (n, err) # fa \<Rightarrow>
          (Some err,
           emit (Appended name (take n line) (Some err))
             (w\<lparr>wfaults := fa, files := file_append name (take n line) (files w)\<rparr>))
      | _ \<Rightarrow>
          (None,
           emit (Appended name line None)
             (w\<lparr>wfaults := tl (wfaults w), files := file_append name line (files w)\<rparr>)))"

definition file_Close :: "string \<Rightarrow> state \<Rightarrow> state" where
  "file_Close name w = emit (Closed name) w"

text \<open>\<^verbatim>\<open>os.Remove\<close>; its error (the file is gone already) is ignored by every caller.\<close>

definition os_Remove :: "string \<Rightarrow> state \<Rightarrow> state" where
  "os_Remove name w = emit (Removed name) (w\<lparr>files := (files w)(name := None)\<rparr>)"

definition defer_Remove :: "string \<Rightarrow> state \<Rightarrow> state" where
  "defer_Remove name w = w\<lparr>deferred := name # deferred w\<rparr>"

fun run_deferred :: "string list \<Rightarrow> state \<Rightarrow> state" where
  "run_deferred [] w = w"
| "run_deferred (name # ds) w = run_deferred ds (os_Remove name w)"

subsection \<open>The child process\<close>

text \<open>
  \<^verbatim>\<open>cmd.Start()\<close>, and for a child that started \<^verbatim>\<open>io.ReadAll\<close> on both pipes and
  \<^verbatim>\<open>cmd.Wait()\<close>. The child is taken to leave the temporary directory as it is.
\<close>

definition cmd_Start :: "Cmd \<Rightarrow> state \<Rightarrow> proc_outcome \<times> state" where
  "cmd_Start c w =
     (let env = cmd_environ (environ w) c;
          res = run w (spawned w) c env (files w);
          w1 = w\<lparr>spawned := Suc (spawned w)\<rparr>
      in case res of
           StartFails err \<Rightarrow> (res, emit (Started c env (files w) (Some err)) w1)
         | Runs out errout st \<Rightarrow>
             (res, emit (Exited out errout st) (emit (Started c env (files w) None) w1)))"

subsection \<open>The service\<close>

text \<open>
  \<^verbatim>\<open>expo\<close> is a Go map; the list holds its entries in the order \<^verbatim>\<open>range\<close> yields them,
  and the keys of a map are distinct. (\<^verbatim>\<open>log\<close> is left out.)
\<close>

record Service =
  shell :: string
  cmd :: string
  addr :: string
  port :: int
  proto :: string
  expo :: "(string \<times> string) list"

datatype control = Proceed | Return "go_error option"

text \<open>
  The inner loop of \<^verbatim>\<open>HandleConnection\<close> (lines 161 to 195): \<open>Proceed\<close> is the
  \<^verbatim>\<open>break\<close> at the closing marker, \<open>Return\<close> a \<^verbatim>\<open>return\<close> of the handler.
\<close>

function receive :: "string \<Rightarrow> string \<Rightarrow> state \<Rightarrow> control \<times> state" where
  "receive eofMarker tmpFile w =
     (case reader_ReadString w of
        ((line, Some err), w1) \<Rightarrow>
          (Return None,
           if err \<noteq> EOF
           then conn_Write (''error: failed to read script: '' @ Error err @ [NL]) w1
           else w1)
      | ((line, None), w1) \<Rightarrow>
          (let trimmed = (if length line > 0 \<and> last line = NL then butlast line else line)
           in if trimmed = eofMarker then (Proceed, w1)
              else (case file_WriteString tmpFile line w1 of
                      (Some err, w2) \<Rightarrow>
                        (Return None,
                         conn_Write (''error: failed to write script: '' @ Error err @ [NL]) w2)
                    | (None, w2) \<Rightarrow> receive eofMarker tmpFile w2)))"
  by pat_completeness auto

lemma cut_line_shorter: "cut_line p = Some (l, r) \<Longrightarrow> length r < length p"
  by (induction p arbitrary: l r) (auto split: if_splits option.splits)

lemma ReadString_pending:
  "reader_ReadString w = ((line, e), w1) \<Longrightarrow>
     (e = None \<longrightarrow> length (pending w1) < length (pending w)) \<and> length (pending w1) \<le> length (pending w)"
  by (auto simp: reader_ReadString_def emit_def split: option.splits dest: cut_line_shorter)

lemma WriteString_pending: "file_WriteString n l w = (r, w2) \<Longrightarrow> pending w2 = pending w"
  by (auto simp: file_WriteString_def emit_def split: list.splits option.splits)

termination receive
proof (relation "measure (\<lambda>(m, t, w). length (pending w))")
  show "wf (measure (\<lambda>(m, t, w). length (pending w)))" by simp
next
  fix eofMarker tmpFile :: string and w :: state
  fix x w1 line e trimmed y w2
  assume a: "(x, w1) = reader_ReadString w" "(line, e) = x" "e = None"
    and b: "(y, w2) = file_WriteString tmpFile line w1"
  from a have "length (pending w1) < length (pending w)"
    using ReadString_pending [of w line e w1] by simp
  moreover from b have "pending w2 = pending w1"
    using WriteString_pending [of tmpFile line w1 y w2] by simp
  ultimately show "((eofMarker, tmpFile, w2), (eofMarker, tmpFile, w)) \<in> measure (\<lambda>(m, t, w). length (pending w))"
    by simp
qed

declare receive.simps [simp del]

text \<open>
  Lines 197 to 247: the spool file is closed, the shell is started on it with the
  exports as its \<^verbatim>\<open>Env\<close>, its output is relayed, the spool file is removed, and the
  exit status decides between \<^verbatim>\<open>continue\<close> (\<open>Proceed\<close>) and \<^verbatim>\<open>return nil\<close>.
\<close>

definition execute :: "Service \<Rightarrow> string \<Rightarrow> state \<Rightarrow> control \<times> state" where
  "execute s tmpFile w =
     (let w1 = file_Close tmpFile w;
          export = map (\<lambda>(k, v). k @ ''='' @ v) (expo s);
          c0 = CommandContext (cmd s) [''-l'', tmpFile];
          c = c0\<lparr>Env := go_append (Env c0) export\<rparr>
      in case cmd_Start c w1 of
           (StartFails err, w2) \<Rightarrow>
             (Return None, conn_Write (''error: failed to start shell: '' @ Error err @ [NL]) w2)
         | (Runs stdout stderr cmdErr, w2) \<Rightarrow>
             (let w3 = (if length stdout > 0 then conn_Write stdout w2 else w2);
                  w4 = (if length stderr > 0 then conn_Write stderr w3 else w3);
                  w5 = os_Remove tmpFile w4
              in case cmdErr of
                   Some e \<Rightarrow>
                     (Proceed,
                      conn_Write (''error: script execution failed: '' @ Error e @ [NL]) w5)
                 | None \<Rightarrow> (Return None, w5)))"

text \<open>
  One pass through the body of the outer loop of \<^verbatim>\<open>HandleConnection\<close> (lines 129 to
  247): \<open>Proceed\<close> is a \<^verbatim>\<open>continue\<close>, \<open>Return\<close> a \<^verbatim>\<open>return\<close>.
\<close>

definition cycle :: "Service \<Rightarrow> state \<Rightarrow> control \<times> state" where
  "cycle s w =
     (case reader_ReadString w of
        ((line, Some err), w1) \<Rightarrow>
          (Return None,
           if \<not> errors_Is err EOF
           then conn_Write (''error: failed to read EOF marker: '' @ Error err @ [NL]) w1
           else w1)
      | ((line, None), w1) \<Rightarrow>
          (let eofMarker = butlast line
           in if length eofMarker = 0 then (Proceed, w1)
              else (case os_CreateTemp w1 of
                      (Inl err, w2) \<Rightarrow>
                        (Return (Some err),
                         conn_Write (''error: failed to create temp file: '' @ Error err @ [NL]) w2)
                    | (Inr tmpFile, w2) \<Rightarrow>
                        (case receive eofMarker tmpFile (defer_Remove tmpFile w2) of
                           (Return r, w3) \<Rightarrow> (Return r, w3)
                         | (Proceed, w3) \<Rightarrow> execute s tmpFile w3))))"

lemma receive_pending: "receive m t w = (c, w') \<Longrightarrow> length (pending w') \<le> length (pending w)"
proof (induction m t w arbitrary: c w' rule: receive.induct)
  case (1 m t w)
  obtain line e w1 where r: "reader_ReadString w = ((line, e), w1)"
    by (metis prod.exhaust)
  note le = ReadString_pending [OF r]
  show ?case
  proof (cases e)
    case (Some err)
    with r "1.prems" le show ?thesis
      by (auto simp: receive.simps [of m t w] conn_Write_def emit_def split: if_splits)
  next
    case None
    let ?tr = "if length line > 0 \<and> last line = NL then butlast line else line"
    show ?thesis
    proof (cases "?tr = m")
      case True
      with r None "1.prems" le show ?thesis
        by (simp add: receive.simps [of m t w])
    next
      case False
      obtain y w2 where f: "file_WriteString t line w1 = (y, w2)"
        by (metis prod.exhaust)
      note eq = WriteString_pending [OF f]
      show ?thesis
      proof (cases y)
        case (Some err)
        with r None False f "1.prems" le eq show ?thesis
          by (auto simp: receive.simps [of m t w] conn_Write_def emit_def)
      next
        case yNone: None
        from r None False f yNone "1.prems" have "receive m t w2 = (c, w')"
          by (simp add: receive.simps [of m t w])
        from "1.IH" [OF r [symmetric] refl None refl False f [symmetric] yNone this]
        show ?thesis using le eq by simp
      qed
    qed
  qed
qed

lemma execute_pending: "execute s t w = (c, w') \<Longrightarrow> pending w' = pending w"
  by (auto simp: execute_def Let_def cmd_Start_def file_Close_def conn_Write_def os_Remove_def
      emit_def split: proc_outcome.splits option.splits if_splits)

lemma CreateTemp_pending: "os_CreateTemp w = (r, w') \<Longrightarrow> pending w' = pending w"
  by (auto simp: os_CreateTemp_def emit_def split: prod.splits sum.splits)

lemma cycle_pending:
  assumes "cycle s w = (Proceed, w')"
  shows "length (pending w') < length (pending w)"
proof -
  obtain line e w1 where r: "reader_ReadString w = ((line, e), w1)"
    by (metis prod.exhaust)
  from assms r have e: "e = None"
    by (cases e) (auto simp: cycle_def)
  from ReadString_pending [OF r] e have lt: "length (pending w1) < length (pending w)"
    by simp
  show ?thesis
  proof (cases "butlast line = []")
    case True
    with assms r e lt show ?thesis by (simp add: cycle_def)
  next
    case False
    obtain x w2 where ct: "os_CreateTemp w1 = (x, w2)"
      by (metis prod.exhaust)
    from assms r e False ct obtain tmp where x: "x = Inr tmp"
      by (cases x) (auto simp: cycle_def)
    obtain c3 w3 where rc: "receive (butlast line) tmp (defer_Remove tmp w2) = (c3, w3)"
      by (metis prod.exhaust)
    from assms r e False ct x rc have c3: "c3 = Proceed" and ex: "execute s tmp w3 = (Proceed, w')"
      by (cases c3; simp add: cycle_def)+
    from receive_pending [OF rc] have "length (pending w3) \<le> length (pending w2)"
      by (simp add: defer_Remove_def)
    with CreateTemp_pending [OF ct] execute_pending [OF ex] lt show ?thesis by simp
  qed
qed

text \<open>
  \<^verbatim>\<open>HandleConnection\<close>: the outer loop, and the deferred removals that run when the
  handler returns, the last deferred first.
\<close>

function HandleConnection_loop :: "Service \<Rightarrow> state \<Rightarrow> go_error option \<times> state" where
  "HandleConnection_loop s w =
     (case cycle s w of
        (Proceed, w') \<Rightarrow> HandleConnection_loop s w'
      | (Return r, w') \<Rightarrow> (r, run_deferred (deferred w') (w'\<lparr>deferred := []\<rparr>)))"
  by pat_completeness auto
termination
proof (relation "measure (\<lambda>(s, w). length (pending w))")
  show "wf (measure (\<lambda>(s, w). length (pending w)))" by simp
next
  fix s :: Service and w x1 x2
  assume "(x1, x2) = cycle s w" "x1 = Proceed"
  then have "length (pending x2) < length (pending w)"
    using cycle_pending [of s w x2] by simp
  then show "((s, x2), (s, w)) \<in> measure (\<lambda>(s, w). length (pending w))" by simp
qed

declare HandleConnection_loop.simps [simp del]

definition HandleConnection :: "Service \<Rightarrow> state \<Rightarrow> go_error option \<times> state" where
  "HandleConnection s w = HandleConnection_loop s (w\<lparr>deferred := []\<rparr>)"

subsection \<open>The listener\<close>

text \<open>
  The task \<^verbatim>\<open>ListenAndServe\<close> hands to the group for an accepted connection (lines 116 to
  120): the handler, and the deferred \<^verbatim>\<open>conn.Close()\<close>.
\<close>

definition serve :: "Service \<Rightarrow> state \<Rightarrow> go_error option \<times> state" where
  "serve s w = (case HandleConnection s w of (r, w') \<Rightarrow> (r, conn_Close w'))"

text \<open>
  \<^verbatim>\<open>errgroup.Group\<close>: \<^verbatim>\<open>g.Go(f)\<close> runs \<open>f\<close> in a goroutine of its own, and the group keeps
  the first error a task returns, for \<^verbatim>\<open>g.Wait()\<close>. Nothing else of a task reaches the
  listener, so the model runs the task where it is started and records its result.
\<close>

definition group_Go :: "go_error option \<Rightarrow> go_error option \<Rightarrow> go_error option" where
  "group_Go g r = (case g of None \<Rightarrow> r | Some e \<Rightarrow> Some e)"

text \<open>
  What \<^verbatim>\<open>ln.Accept()\<close> returns: an error, or a connection, given as the state its handler
  starts in. A round of the accept loop is that result together with what the
  \<^verbatim>\<open>select\<close> after it finds: whether \<^verbatim>\<open>ctx.Done()\<close> is closed.
\<close>

datatype accepted = AcceptFails go_error | Accepted state

text \<open>A call returns a value, or blocks for ever (here: in \<^verbatim>\<open>Accept\<close>, with nothing to come).\<close>

datatype 'a outcome = Blocks | Returns 'a

text \<open>The loop of lines 92 to 122, with the group \<open>g\<close>.\<close>

fun accept_loop :: "Service \<Rightarrow> go_error option \<Rightarrow> (accepted \<times> bool) list
    \<Rightarrow> go_error option outcome \<times> go_error option" where
  "accept_loop s g [] = (Blocks, g)"
| "accept_loop s g ((a, done) # rounds) =
     (if done then (Returns None, g)
      else (case a of
              AcceptFails err \<Rightarrow> accept_loop s g rounds
            | Accepted conn \<Rightarrow> accept_loop s (group_Go g (fst (serve s conn))) rounds))"

text \<open>
  \<^verbatim>\<open>ListenAndServe\<close>: \<open>listen\<close> is the error of \<^verbatim>\<open>Listen\<close>, if any. The group is local
  and never waited for.
\<close>

definition ListenAndServe :: "Service \<Rightarrow> go_error option \<Rightarrow> (accepted \<times> bool) list
    \<Rightarrow> go_error option outcome" where
  "ListenAndServe s listen rounds =
     (case listen of
        Some err \<Rightarrow> Returns (Some err)
      | None \<Rightarrow> fst (accept_loop s None rounds))"

subsection \<open>Resolving the shell\<close>

text \<open>
  The white space of \<^verbatim>\<open>strings.TrimSpace\<close>, as UTF-8: the six of ASCII, U+0085, U+00A0,
  U+1680, U+2000 to U+200A, U+2028, U+2029, U+202F, U+205F and U+3000.
\<close>

definition spaces :: "string list" where
  "spaces =
     map (\<lambda>c. [c]) [CHR 0x09, CHR 0x0A, CHR 0x0B, CHR 0x0C, CHR 0x0D, CHR 0x20] @
     [[CHR 0xC2, CHR 0x85], [CHR 0xC2, CHR 0xA0], [CHR 0xE1, CHR 0x9A, CHR 0x80]] @
     map (\<lambda>c. [CHR 0xE2, CHR 0x80, c])
       [CHR 0x80, CHR 0x81, CHR 0x82, CHR 0x83, CHR 0x84, CHR 0x85, CHR 0x86, CHR 0x87,
        CHR 0x88, CHR 0x89, CHR 0x8A, CHR 0xA8, CHR 0xA9, CHR 0xAF] @
     [[CHR 0xE2, CHR 0x81, CHR 0x9F], [CHR 0xE3, CHR 0x80, CHR 0x80]]"

text \<open>The length of the white space a string starts with, or ends with; 0 if it does not.\<close>

definition space_prefix :: "string \<Rightarrow> nat" where
  "space_prefix s =
     (case find (\<lambda>sp. take (length sp) s = sp) spaces of None \<Rightarrow> 0 | Some sp \<Rightarrow> length sp)"

definition space_suffix :: "string \<Rightarrow> nat" where
  "space_suffix s =
     (case find (\<lambda>sp. length sp \<le> length s \<and> drop (length s - length sp) s = sp) spaces of
        None \<Rightarrow> 0
      | Some sp \<Rightarrow> length sp)"

lemma spaces_nonempty: "sp \<in> set spaces \<Longrightarrow> sp \<noteq> []"
  by (auto simp: spaces_def)

lemma space_prefix_shorter: "space_prefix s \<noteq> 0 \<Longrightarrow> length (drop (space_prefix s) s) < length s"
proof -
  assume a: "space_prefix s \<noteq> 0"
  then obtain sp where f: "find (\<lambda>sp. take (length sp) s = sp) spaces = Some sp"
    by (auto simp: space_prefix_def split: option.splits)
  then have "sp \<in> set spaces" "take (length sp) s = sp"
    by (auto simp: find_Some_iff)
  with spaces_nonempty [of sp] have "s \<noteq> []" by auto
  with a show ?thesis by simp
qed

lemma space_suffix_shorter:
  "space_suffix s \<noteq> 0 \<Longrightarrow> length (take (length s - space_suffix s) s) < length s"
proof -
  assume a: "space_suffix s \<noteq> 0"
  then obtain sp where
    f: "find (\<lambda>sp. length sp \<le> length s \<and> drop (length s - length sp) s = sp) spaces = Some sp"
    by (auto simp: space_suffix_def split: option.splits)
  then have "sp \<in> set spaces" "length sp \<le> length s"
    by (auto simp: find_Some_iff)
  with spaces_nonempty [of sp] have "s \<noteq> []" by auto
  with a show ?thesis by simp
qed

function TrimLeft :: "string \<Rightarrow> string" where
  "TrimLeft s = (if space_prefix s = 0 then s else TrimLeft (drop (space_prefix s) s))"
  by pat_completeness auto
termination
  by (relation "measure length") (use space_prefix_shorter in auto)

function TrimRight :: "string \<Rightarrow> string" where
  "TrimRight s = (if space_suffix s = 0 then s else TrimRight (take (length s - space_suffix s) s))"
  by pat_completeness auto
termination
  by (relation "measure length") (use space_suffix_shorter in auto)

declare TrimLeft.simps [simp del] TrimRight.simps [simp del]

definition TrimSpace :: "string \<Rightarrow> string" where
  "TrimSpace s = TrimRight (TrimLeft s)"

text \<open>\<^verbatim>\<open>filepath.IsAbs\<close> on Unix.\<close>

definition IsAbs :: "string \<Rightarrow> bool" where
  "IsAbs path = (take 1 path = ''/'')"

text \<open>
  The machine \<^verbatim>\<open>resolveShell\<close> and \<^verbatim>\<open>Make\<close> ask: the error of \<^verbatim>\<open>os.Stat\<close>, if any, and the
  results of \<^verbatim>\<open>exec.LookPath\<close> and \<^verbatim>\<open>filepath.Abs\<close>.
\<close>

record host =
  Stat :: "string \<Rightarrow> go_error option"
  LookPath :: "string \<Rightarrow> go_error + string"
  Abs :: "string \<Rightarrow> go_error + string"

definition os_IsNotExist :: "go_error option \<Rightarrow> bool" where
  "os_IsNotExist err = (case err of None \<Rightarrow> False | Some e \<Rightarrow> errors_Is e ErrNotExist)"

text \<open>
  The verb \<^verbatim>\<open>%q\<close>, without the escapes it writes for quotes, backslashes and bytes that
  do not print; and \<^verbatim>\<open>%d\<close>.
\<close>

definition quote :: "string \<Rightarrow> string" where
  "quote s = [CHR 0x22] @ s @ [CHR 0x22]"

function digits :: "nat \<Rightarrow> string" where
  "digits n = (if n < 10 then [char_of (48 + n)] else digits (n div 10) @ [char_of (48 + n mod 10)])"
  by pat_completeness auto
termination
  by (relation "measure id") auto

declare digits.simps [simp del]

definition itoa :: "int \<Rightarrow> string" where
  "itoa i = (if i < 0 then ''-'' @ digits (nat (- i)) else digits (nat i))"

text \<open>\<^verbatim>\<open>resolveShell\<close> (\<^verbatim>\<open>main.go\<close>, lines 129 to 159).\<close>

definition resolveShell :: "host \<Rightarrow> string \<Rightarrow> go_error + string" where
  "resolveShell h sh0 =
     (let sh = TrimSpace sh0
      in if sh = [] then Inl (ErrorString ''shell name is empty'')
         else if IsAbs sh then Inr sh
         else (let err = Stat h sh
               in if os_IsNotExist err
                  then (case LookPath h sh of
                          Inl err' \<Rightarrow> Inl (ErrorString (''shell '' @ quote sh @ '' not found''))
                        | Inr path \<Rightarrow> Inr path)
                  else (case err of
                          Some e \<Rightarrow> Inl (Wrapped (''failed to stat '' @ quote sh) e)
                        | None \<Rightarrow>
                            (case Abs h sh of
                               Inl e \<Rightarrow> Inl (Wrapped (''cannot resolve path '' @ quote sh) e)
                             | Inr absolute \<Rightarrow> Inr absolute))))"

text \<open>\<^verbatim>\<open>strings.Split(s, ":")\<close> and \<^verbatim>\<open>strconv.Atoi\<close> (a 64-bit \<^verbatim>\<open>int\<close>).\<close>

fun Split :: "string \<Rightarrow> char \<Rightarrow> string list" where
  "Split [] sep = [[]]"
| "Split (c # cs) sep =
     (if c = sep then [] # Split cs sep
      else (case Split cs sep of [] \<Rightarrow> [[c]] | p # ps \<Rightarrow> (c # p) # ps))"

definition ErrSyntax :: go_error where
  "ErrSyntax = ErrorString ''invalid syntax''"

definition ErrRange :: go_error where
  "ErrRange = ErrorString ''value out of range''"

definition Atoi :: "string \<Rightarrow> go_error + int" where
  "Atoi s =
     (let neg = (take 1 s = ''-'');
          ds = (if take 1 s = ''-'' \<or> take 1 s = ''+'' then drop 1 s else s)
      in if ds = [] \<or> (\<exists>c\<in>set ds. c \<notin> set ''0123456789'') then Inl ErrSyntax
         else (let n = foldl (\<lambda>a c. 10 * a + (int (of_char c) - 48)) 0 ds;
                   v = (if neg then - n else n)
               in if v < - (2 ^ 63) \<or> 2 ^ 63 - 1 < v then Inl ErrRange else Inr v))"

text \<open>\<^verbatim>\<open>parseServiceArg\<close> (\<^verbatim>\<open>main.go\<close>, lines 162 to 225).\<close>

definition parseServiceArg :: "host \<Rightarrow> string \<Rightarrow> string \<Rightarrow> int
    \<Rightarrow> go_error + (string \<times> string \<times> int)" where
  "parseServiceArg h arg defaultAddr defaultPort =
     (let parts = Split arg CHR '':''
      in if length parts = 0 \<or> parts ! 0 = [] then Inl (ErrorString ''shell name is required'')
         else (let sh = parts ! 0;
                   parsed =
                     (if length parts = 1 then Inr ([], 0)
                      else if length parts = 2 then Inr (parts ! 1, 0)
                      else if length parts = 3 then
                        (if parts ! 2 \<noteq> [] then
                           (case Atoi (parts ! 2) of
                              Inl err \<Rightarrow> Inl (Wrapped (''invalid port '' @ quote (parts ! 2)) err)
                            | Inr p \<Rightarrow> Inr (parts ! 1, p))
                         else Inr (parts ! 1, 0))
                      else Inl (ErrorString (''invalid format '' @ quote arg @ '': too many colons'')))
               in case parsed of
                    Inl err \<Rightarrow> Inl err
                  | Inr (a0, p0) \<Rightarrow>
                      (let a = (if a0 = [] then defaultAddr else a0);
                           p = (if p0 = 0 then defaultPort else p0)
                       in if p < 1 \<or> p > 65535
                          then Inl (ErrorString (''port '' @ itoa p @ '' out of range (1-65535)''))
                          else (case resolveShell h sh of
                                  Inl err \<Rightarrow> Inl err
                                | Inr path \<Rightarrow> Inr (path, a, p)))))"

text \<open>\<^verbatim>\<open>Make\<close> (\<^verbatim>\<open>service.go\<close>, lines 30 to 66).\<close>

definition Protocol :: string where
  "Protocol = ''tcp''"

definition Make :: "host \<Rightarrow> string \<Rightarrow> string \<Rightarrow> int \<Rightarrow> (string \<times> string) list
    \<Rightarrow> go_error + Service" where
  "Make h sh a p ex =
     (case LookPath h sh of
        Inl err \<Rightarrow> Inl (Wrapped (''shell '' @ quote sh @ '' not found'') err)
      | Inr path \<Rightarrow>
          Inr \<lparr>shell = sh, cmd = path, addr = a, port = p, proto = Protocol, expo = ex\<rparr>)"

text \<open>
  What \<^verbatim>\<open>main\<close> does with one argument (lines 384 to 412): it parses it and makes the
  service; \<open>Inl\<close> is the \<^verbatim>\<open>os.Exit(1)\<close> that ends the program before any service of it
  listens.
\<close>

definition service_for :: "host \<Rightarrow> (string \<times> string) list \<Rightarrow> string \<Rightarrow> int \<Rightarrow> string
    \<Rightarrow> go_error + Service" where
  "service_for h ex defaultAddr currentDefaultPort arg =
     (case parseServiceArg h arg defaultAddr currentDefaultPort of
        Inl err \<Rightarrow> Inl err
      | Inr (sh, a, p) \<Rightarrow> Make h sh a p ex)"

section \<open>What one pass of the loop does\<close>

text \<open>The test of line 177: a line without its final newline.\<close>

definition trim_line :: "string \<Rightarrow> string" where
  "trim_line line = (if length line > 0 \<and> last line = NL then butlast line else line)"

lemma receive_unfold:
  "receive m t w =
     (case reader_ReadString w of
        ((line, Some err), w1) \<Rightarrow>
          (Return None,
           if err \<noteq> EOF
           then conn_Write (''error: failed to read script: '' @ Error err @ [NL]) w1
           else w1)
      | ((line, None), w1) \<Rightarrow>
          if trim_line line = m then (Proceed, w1)
          else (case file_WriteString t line w1 of
                  (Some err, w2) \<Rightarrow>
                    (Return None,
                     conn_Write (''error: failed to write script: '' @ Error err @ [NL]) w2)
                | (None, w2) \<Rightarrow> receive m t w2))"
  by (subst receive.simps) (simp add: trim_line_def Let_def)

lemma receive_rule [consumes 1, case_names fail stop wfail step]:
  assumes "receive m t w = (c, w')"
    and fail: "\<And>w d e w1. reader_ReadString w = ((d, Some e), w1) \<Longrightarrow>
       P w (Return None)
         (if e \<noteq> EOF then conn_Write (''error: failed to read script: '' @ Error e @ [NL]) w1 else w1)"
    and stop: "\<And>w l w1. reader_ReadString w = ((l, None), w1) \<Longrightarrow> trim_line l = m \<Longrightarrow> P w Proceed w1"
    and wfail: "\<And>w l w1 e w2. reader_ReadString w = ((l, None), w1) \<Longrightarrow> trim_line l \<noteq> m \<Longrightarrow>
       file_WriteString t l w1 = (Some e, w2) \<Longrightarrow>
       P w (Return None) (conn_Write (''error: failed to write script: '' @ Error e @ [NL]) w2)"
    and step: "\<And>w l w1 w2 c w'. reader_ReadString w = ((l, None), w1) \<Longrightarrow> trim_line l \<noteq> m \<Longrightarrow>
       file_WriteString t l w1 = (None, w2) \<Longrightarrow> receive m t w2 = (c, w') \<Longrightarrow> P w2 c w' \<Longrightarrow> P w c w'"
  shows "P w c w'"
  using assms(1)
proof (induction "length (pending w)" arbitrary: w c w' rule: less_induct)
  case less
  obtain line e w1 where r: "reader_ReadString w = ((line, e), w1)"
    by (metis prod.exhaust)
  show ?case
  proof (cases e)
    case (Some err)
    with r less.prems fail [of w line err w1] show ?thesis
      by (auto simp: receive_unfold [of _ _ w])
  next
    case None
    show ?thesis
    proof (cases "trim_line line = m")
      case True
      with r None less.prems stop [of w line w1] show ?thesis
        by (auto simp: receive_unfold [of _ _ w])
    next
      case False
      obtain y w2 where f: "file_WriteString t line w1 = (y, w2)"
        by (metis prod.exhaust)
      show ?thesis
      proof (cases y)
        case (Some err)
        with r None False f less.prems wfail [of w line w1 err w2] show ?thesis
          by (auto simp: receive_unfold [of _ _ w])
      next
        case yNone: None
        from r None False f yNone less.prems have rec: "receive m t w2 = (c, w')"
          by (simp add: receive_unfold [of _ _ w])
        from ReadString_pending [OF r] None WriteString_pending [OF f]
        have "length (pending w2) < length (pending w)" by simp
        from less.hyps [OF this rec] have "P w2 c w'" .
        with r None False f yNone rec step [of w line w1 w2 c w'] show ?thesis
          by simp
      qed
    qed
  qed
qed

definition spooled :: "string \<Rightarrow> string list \<Rightarrow> event list" where
  "spooled t body = concat (map (\<lambda>l. [Recv l None, Appended t l None]) body)"

lemma spooled_simps [simp]:
  "spooled t [] = []" "spooled t (l # ls) = Recv l None # Appended t l None # spooled t ls"
  by (simp_all add: spooled_def)

lemma ReadString_effect:
  assumes "reader_ReadString w = ((d, e), w1)"
  shows "trace w1 = trace w @ [Recv d e]" "files w1 = files w" "environ w1 = environ w"
    "deferred w1 = deferred w" "temps w1 = temps w" "run w1 = run w" "spawned w1 = spawned w"
    "ending w1 = ending w" "wfaults w1 = wfaults w"
  using assms by (auto simp: reader_ReadString_def emit_def split: option.splits)

lemma WriteString_effect:
  assumes "file_WriteString t l w = (r, w2)"
  shows "\<exists>p. trace w2 = trace w @ [Appended t p r] \<and> files w2 = file_append t p (files w) \<and> (r = None \<longrightarrow> p = l)"
    "environ w2 = environ w" "deferred w2 = deferred w" "temps w2 = temps w" "run w2 = run w"
    "spawned w2 = spawned w" "ending w2 = ending w" "pending w2 = pending w"
  using assms by (auto simp: file_WriteString_def emit_def split: list.splits option.splits)

lemma conn_Write_effect [simp]:
  "trace (conn_Write b w) = trace w @ [Send b]" "files (conn_Write b w) = files w"
  "environ (conn_Write b w) = environ w" "deferred (conn_Write b w) = deferred w"
  "temps (conn_Write b w) = temps w" "run (conn_Write b w) = run w"
  "spawned (conn_Write b w) = spawned w" "ending (conn_Write b w) = ending w"
  "pending (conn_Write b w) = pending w" "wfaults (conn_Write b w) = wfaults w"
  by (simp_all add: conn_Write_def emit_def)

lemma file_append_append: "file_append t b (file_append t a fs) = file_append t (a @ b) fs"
  by (auto simp: file_append_def split: option.splits)

lemma file_append_Nil [simp]: "file_append t [] fs = fs"
  by (auto simp: file_append_def split: option.splits)

definition read_failure :: "string \<Rightarrow> go_error \<Rightarrow> event list" where
  "read_failure d e =
     Recv d (Some e) #
     (if e \<noteq> EOF then [Send (''error: failed to read script: '' @ Error e @ [NL])] else [])"

definition write_failure :: "string \<Rightarrow> string \<Rightarrow> string \<Rightarrow> go_error \<Rightarrow> event list" where
  "write_failure t l p e =
     [Recv l None, Appended t p (Some e), Send (''error: failed to write script: '' @ Error e @ [NL])]"

lemma cut_line_None: "cut_line p = None \<longleftrightarrow> NL \<notin> set p"
  by (induction p) (auto split: option.splits)

lemma ReadString_fails:
  assumes "reader_ReadString w = ((d, Some e), w1)"
  shows "NL \<notin> set d"
  using assms by (auto simp: reader_ReadString_def cut_line_None split: option.splits)

lemma receive_effect:
  assumes "receive m t w = (c, w')"
  shows "\<exists>body fin. trace w' = trace w @ spooled t body @ fin \<and> (\<forall>l\<in>set body. trim_line l \<noteq> m) \<and>
      (case c of
         Proceed \<Rightarrow> (\<exists>cl. fin = [Recv cl None] \<and> trim_line cl = m) \<and>
                    files w' = file_append t (concat body) (files w)
       | Return r \<Rightarrow> r = None \<and>
           ((\<exists>d e. fin = read_failure d e \<and> NL \<notin> set d) \<or> (\<exists>l p e. fin = write_failure t l p e \<and> trim_line l \<noteq> m)))"
  using assms
proof (induction rule: receive_rule)
  case (fail w d e w1)
  have "trace (if e \<noteq> EOF then conn_Write (''error: failed to read script: '' @ Error e @ [NL]) w1 else w1)
      = trace w @ spooled t [] @ read_failure d e"
    using ReadString_effect(1) [OF fail] by (simp add: read_failure_def)
  with ReadString_fails [OF fail] show ?case
    by - (rule exI [of _ "[]"], rule exI [of _ "read_failure d e"], auto)
next
  case (stop w l w1)
  have "trace w1 = trace w @ spooled t [] @ [Recv l None]"
    using ReadString_effect(1) [OF stop(1)] by simp
  with stop ReadString_effect(2) [OF stop(1)] show ?case
    by - (rule exI [of _ "[]"], rule exI [of _ "[Recv l None]"], auto)
next
  case (wfail w l w1 e w2)
  from WriteString_effect(1) [OF wfail(3)] obtain p where
    "trace w2 = trace w1 @ [Appended t p (Some e)]" by auto
  then have "trace (conn_Write (''error: failed to write script: '' @ Error e @ [NL]) w2)
      = trace w @ spooled t [] @ write_failure t l p e"
    using ReadString_effect(1) [OF wfail(1)] by (simp add: write_failure_def)
  with wfail(2) show ?case
    by - (rule exI [of _ "[]"], rule exI [of _ "write_failure t l p e"], simp, blast)
next
  case (step w l w1 w2 c w')
  from step.IH obtain body fin where
    tr: "trace w' = trace w2 @ spooled t body @ fin" and ne: "\<forall>l\<in>set body. trim_line l \<noteq> m"
    and rest: "case c of
         Proceed \<Rightarrow> (\<exists>cl. fin = [Recv cl None] \<and> trim_line cl = m) \<and>
                    files w' = file_append t (concat body) (files w2)
       | Return r \<Rightarrow> r = None \<and>
           ((\<exists>d e. fin = read_failure d e \<and> NL \<notin> set d) \<or> (\<exists>l p e. fin = write_failure t l p e \<and> trim_line l \<noteq> m))"
    by blast
  from WriteString_effect(1) [OF step(3)] have
    t2: "trace w2 = trace w1 @ [Appended t l None]" and f2: "files w2 = file_append t l (files w1)"
    by auto
  from t2 tr ReadString_effect(1) [OF step(1)]
  have "trace w' = trace w @ spooled t (l # body) @ fin" by simp
  moreover from ne step(2) have "\<forall>x\<in>set (l # body). trim_line x \<noteq> m" by simp
  moreover have "case c of
         Proceed \<Rightarrow> (\<exists>cl. fin = [Recv cl None] \<and> trim_line cl = m) \<and>
                    files w' = file_append t (concat (l # body)) (files w)
       | Return r \<Rightarrow> r = None \<and>
           ((\<exists>d e. fin = read_failure d e \<and> NL \<notin> set d) \<or> (\<exists>l p e. fin = write_failure t l p e \<and> trim_line l \<noteq> m))"
    using rest f2 ReadString_effect(2) [OF step(1)]
    by (auto split: control.splits simp: file_append_append)
  ultimately show ?case by blast
qed

lemma receive_frame:
  assumes "receive m t w = (c, w')"
  shows "environ w' = environ w \<and> deferred w' = deferred w \<and> run w' = run w \<and>
     spawned w' = spawned w \<and> temps w' = temps w \<and> ending w' = ending w"
  using assms
proof (induction rule: receive_rule)
  case (fail w d e w1)
  then show ?case using ReadString_effect [OF fail] by simp
next
  case (stop w l w1)
  then show ?case using ReadString_effect [OF stop(1)] by simp
next
  case (wfail w l w1 e w2)
  then show ?case using ReadString_effect [OF wfail(1)] WriteString_effect [OF wfail(3)] by simp
next
  case (step w l w1 w2 c w')
  then show ?case using ReadString_effect [OF step(1)] WriteString_effect [OF step(3)] by simp
qed

definition shell_command :: "Service \<Rightarrow> string \<Rightarrow> Cmd" where
  "shell_command s t =
     \<lparr>Path = cmd s, Args = [cmd s, ''-l'', t],
      Env = go_append None (map (\<lambda>(k, v). k @ ''='' @ v) (expo s))\<rparr>"

definition relay :: "string \<Rightarrow> string \<Rightarrow> event list" where
  "relay out err = (if out = [] then [] else [Send out]) @ (if err = [] then [] else [Send err])"

definition verdict :: "go_error option \<Rightarrow> event list" where
  "verdict st =
     (case st of None \<Rightarrow> []
      | Some e \<Rightarrow> [Send (''error: script execution failed: '' @ Error e @ [NL])])"

lemma cut_line_shape:
  "cut_line p = Some (l, r) \<Longrightarrow> p = l @ r \<and> l \<noteq> [] \<and> last l = NL \<and> NL \<notin> set (butlast l)"
  by (induction p arbitrary: l r) (auto split: if_splits option.splits)

lemma ReadString_line:
  assumes "reader_ReadString w = ((l, None), w1)"
  shows "l = butlast l @ [NL]" "NL \<notin> set (butlast l)" "pending w = l @ pending w1"
proof -
  from assms obtain r where c: "cut_line (pending w) = Some (l, r)" and w1: "pending w1 = r"
    by (auto simp: reader_ReadString_def emit_def split: option.splits)
  from cut_line_shape [OF c] show "l = butlast l @ [NL]"
    by (metis append_butlast_last_id)
  from cut_line_shape [OF c] show "NL \<notin> set (butlast l)" by simp
  from cut_line_shape [OF c] w1 show "pending w = l @ pending w1" by simp
qed

lemma pick_temp_fresh: "pick_temp fs ts = (Inr n, ts') \<Longrightarrow> fs n = None"
  by (induction fs ts rule: pick_temp.induct) (auto split: if_splits)

lemma CreateTemp_effect:
  assumes "os_CreateTemp w = (r, w2)"
  shows "environ w2 = environ w" "deferred w2 = deferred w" "run w2 = run w" "spawned w2 = spawned w"
    "ending w2 = ending w"
    "case r of Inl e \<Rightarrow> trace w2 = trace w @ [CreateFailed e] \<and> files w2 = files w
       | Inr n \<Rightarrow> trace w2 = trace w @ [Created n (files w)] \<and> files w n = None \<and>
           files w2 = (files w)(n \<mapsto> [])"
  using assms
  by (auto simp: os_CreateTemp_def emit_def split: prod.splits sum.splits dest: pick_temp_fresh)

lemma cmd_Start_effect:
  assumes "cmd_Start c w = (r, w2)"
  shows "environ w2 = environ w" "deferred w2 = deferred w" "ending w2 = ending w"
    "files w2 = files w" "pending w2 = pending w"
    "trace w2 = trace w @
       (case r of
          StartFails e \<Rightarrow> [Started c (cmd_environ (environ w) c) (files w) (Some e)]
        | Runs out err st \<Rightarrow> [Started c (cmd_environ (environ w) c) (files w) None, Exited out err st])"
  using assms
  by (auto simp: cmd_Start_def Let_def emit_def split: proc_outcome.splits)

lemma execute_unfold:
  "execute s t w =
     (case cmd_Start (shell_command s t) (file_Close t w) of
        (StartFails err, w2) \<Rightarrow>
          (Return None, conn_Write (''error: failed to start shell: '' @ Error err @ [NL]) w2)
      | (Runs out errout st, w2) \<Rightarrow>
          (case st of
             Some e \<Rightarrow>
               (Proceed,
                conn_Write (''error: script execution failed: '' @ Error e @ [NL])
                  (os_Remove t
                    (if length errout > 0
                     then conn_Write errout (if length out > 0 then conn_Write out w2 else w2)
                     else (if length out > 0 then conn_Write out w2 else w2))))
           | None \<Rightarrow>
               (Return None,
                os_Remove t
                  (if length errout > 0
                   then conn_Write errout (if length out > 0 then conn_Write out w2 else w2)
                   else (if length out > 0 then conn_Write out w2 else w2)))))"
  by (simp add: execute_def Let_def shell_command_def CommandContext_def
      split: prod.splits proc_outcome.splits option.splits)

lemma file_Close_effect [simp]:
  "trace (file_Close t w) = trace w @ [Closed t]" "files (file_Close t w) = files w"
  "environ (file_Close t w) = environ w" "deferred (file_Close t w) = deferred w"
  "ending (file_Close t w) = ending w" "pending (file_Close t w) = pending w"
  by (simp_all add: file_Close_def emit_def)

lemma os_Remove_effect [simp]:
  "trace (os_Remove t w) = trace w @ [Removed t]" "files (os_Remove t w) = (files w)(t := None)"
  "environ (os_Remove t w) = environ w" "deferred (os_Remove t w) = deferred w"
  "ending (os_Remove t w) = ending w" "pending (os_Remove t w) = pending w"
  by (simp_all add: os_Remove_def emit_def)

lemma execute_effect:
  assumes "execute s t w = (c, w')"
  shows "environ w' = environ w \<and> deferred w' = deferred w \<and> ending w' = ending w \<and>
    ((\<exists>e. c = Return None \<and>
        trace w' = trace w @
          [Closed t, Started (shell_command s t) (cmd_environ (environ w) (shell_command s t)) (files w) (Some e),
           Send (''error: failed to start shell: '' @ Error e @ [NL])]) \<or>
     (\<exists>out err st. c = (case st of None \<Rightarrow> Return None | Some e \<Rightarrow> Proceed) \<and>
        trace w' = trace w @
          [Closed t, Started (shell_command s t) (cmd_environ (environ w) (shell_command s t)) (files w) None,
           Exited out err st] @ relay out err @ [Removed t] @ verdict st))"
proof -
  obtain r w2 where st: "cmd_Start (shell_command s t) (file_Close t w) = (r, w2)"
    by (metis prod.exhaust)
  note eff = cmd_Start_effect [OF st]
  show ?thesis
  proof (cases r)
    case (StartFails e)
    with assms st have "c = Return None"
      "w' = conn_Write (''error: failed to start shell: '' @ Error e @ [NL]) w2"
      by (simp_all add: execute_unfold)
    with eff StartFails show ?thesis by simp
  next
    case (Runs out err x)
    let ?w3 = "if length out > 0 then conn_Write out w2 else w2"
    let ?w4 = "if length err > 0 then conn_Write err ?w3 else ?w3"
    let ?w5 = "os_Remove t ?w4"
    have t5: "trace ?w5 = trace w @
          [Closed t, Started (shell_command s t) (cmd_environ (environ w) (shell_command s t)) (files w) None,
           Exited out err x] @ relay out err @ [Removed t]"
      and f5: "environ ?w5 = environ w" "deferred ?w5 = deferred w" "ending ?w5 = ending w"
      using eff Runs by (simp_all add: relay_def)
    show ?thesis
    proof (cases x)
      case None
      with assms st Runs have "c = Return None" "w' = ?w5"
        by (simp_all add: execute_unfold)
      with t5 f5 None show ?thesis
        by (intro conjI disjI2 exI [of _ out] exI [of _ err] exI [of _ x]) (simp_all add: verdict_def)
    next
      case (Some e)
      with assms st Runs have "c = Proceed"
        "w' = conn_Write (''error: script execution failed: '' @ Error e @ [NL]) ?w5"
        by (simp_all add: execute_unfold)
      with t5 f5 Some show ?thesis
        by (intro conjI disjI2 exI [of _ out] exI [of _ err] exI [of _ x]) (simp_all add: verdict_def)
    qed
  qed
qed

definition marker_failure :: "string \<Rightarrow> go_error \<Rightarrow> event list" where
  "marker_failure d e =
     Recv d (Some e) #
     (if \<not> errors_Is e EOF then [Send (''error: failed to read EOF marker: '' @ Error e @ [NL])]
      else [])"

lemma cycle_cases [consumes 1, case_names marker_fail empty temp_fail recv_fail exec]:
  assumes "cycle s w = (c, w')"
  obtains
    (marker_fail) d e where "c = Return None" "trace w' = trace w @ marker_failure d e"
      "deferred w' = deferred w" "environ w' = environ w" "NL \<notin> set d"
  | (empty) "c = Proceed" "trace w' = trace w @ [Recv [NL] None]"
      "deferred w' = deferred w" "environ w' = environ w"
  | (temp_fail) l e where "c = Return (Some e)" "butlast l \<noteq> []"
      "trace w' = trace w @
         [Recv l None, CreateFailed e, Send (''error: failed to create temp file: '' @ Error e @ [NL])]"
      "deferred w' = deferred w" "environ w' = environ w"
  | (recv_fail) l t body fin where "c = Return None" "butlast l \<noteq> []" "l = butlast l @ [NL]"
      "files w t = None"
      "trace w' = trace w @ [Recv l None, Created t (files w)] @ spooled t body @ fin"
      "\<forall>x\<in>set body. trim_line x \<noteq> butlast l"
      "(\<exists>d e. fin = read_failure d e \<and> NL \<notin> set d) \<or> (\<exists>x p e. fin = write_failure t x p e \<and> trim_line x \<noteq> butlast l)"
      "deferred w' = t # deferred w" "environ w' = environ w"
  | (exec) l t body cl w3 where "butlast l \<noteq> []" "l = butlast l @ [NL]" "files w t = None"
      "trace w3 = trace w @ [Recv l None, Created t (files w)] @ spooled t body @ [Recv cl None]"
      "\<forall>x\<in>set body. trim_line x \<noteq> butlast l" "trim_line cl = butlast l"
      "files w3 = (files w)(t \<mapsto> concat body)"
      "deferred w3 = t # deferred w" "environ w3 = environ w"
      "execute s t w3 = (c, w')"
proof -
  obtain line e w1 where r: "reader_ReadString w = ((line, e), w1)"
    by (metis prod.exhaust)
  note re = ReadString_effect [OF r]
  show ?thesis
  proof (cases e)
    case (Some err)
    with assms r have "c = Return None"
      "w' = (if \<not> errors_Is err EOF
             then conn_Write (''error: failed to read EOF marker: '' @ Error err @ [NL]) w1 else w1)"
      by (simp_all add: cycle_def)
    with re Some ReadString_fails [of w line err w1] r show ?thesis
      by (intro marker_fail [of line err]) (simp_all add: marker_failure_def)
  next
    case None
    note ln = ReadString_line [OF r [unfolded None]]
    show ?thesis
    proof (cases "butlast line = []")
      case True
      with assms r None have "c = Proceed" "w' = w1"
        by (simp_all add: cycle_def)
      moreover from True ln(1) have "line = [NL]" by simp
      ultimately show ?thesis using re None by (intro empty) simp_all
    next
      case False
      obtain x w2 where ct: "os_CreateTemp w1 = (x, w2)"
        by (metis prod.exhaust)
      note ce = CreateTemp_effect [OF ct]
      show ?thesis
      proof (cases x)
        case (Inl err)
        with assms r None False ct have "c = Return (Some err)"
          "w' = conn_Write (''error: failed to create temp file: '' @ Error err @ [NL]) w2"
          by (simp_all add: cycle_def)
        with re ce Inl None False show ?thesis
          by (intro temp_fail [of err line]) simp_all
      next
        case (Inr t)
        obtain c3 w3 where rc: "receive (butlast line) t (defer_Remove t w2) = (c3, w3)"
          by (metis prod.exhaust)
        from receive_effect [OF rc] obtain body fin where
          tr: "trace w3 = trace (defer_Remove t w2) @ spooled t body @ fin"
          and ne: "\<forall>l\<in>set body. trim_line l \<noteq> butlast line"
          and rest: "case c3 of
             Proceed \<Rightarrow> (\<exists>cl. fin = [Recv cl None] \<and> trim_line cl = butlast line) \<and>
                    files w3 = file_append t (concat body) (files (defer_Remove t w2))
           | Return r \<Rightarrow> r = None \<and>
               ((\<exists>d e. fin = read_failure d e \<and> NL \<notin> set d) \<or>
                (\<exists>l p e. fin = write_failure t l p e \<and> trim_line l \<noteq> butlast line))"
          by blast
        note fr = receive_frame [OF rc]
        from ce Inr re None have t2: "trace (defer_Remove t w2) = trace w @ [Recv line None, Created t (files w)]"
          and fresh: "files w t = None"
          and f2: "files (defer_Remove t w2) = (files w)(t \<mapsto> [])"
          and d2: "deferred (defer_Remove t w2) = t # deferred w"
          and e2: "environ (defer_Remove t w2) = environ w"
          by (simp_all add: defer_Remove_def)
        show ?thesis
        proof (cases c3)
          case Proceed
          with assms r None False ct Inr rc have ex: "execute s t w3 = (c, w')"
            by (simp add: cycle_def)
          from rest Proceed obtain cl where fin: "fin = [Recv cl None]" and cl: "trim_line cl = butlast line"
            and f3: "files w3 = file_append t (concat body) (files (defer_Remove t w2))"
            by auto
          from f3 f2 have "files w3 = (files w)(t \<mapsto> concat body)"
            by (simp add: file_append_def)
          with tr t2 fin cl ne fr d2 e2 fresh False ln(1) ex show ?thesis
            by (intro exec [of line t w3 body cl]) simp_all
        next
          case (Return r')
          with assms r None False ct Inr rc have "c = Return r'" "w' = w3"
            by (simp_all add: cycle_def)
          with rest Return tr t2 ne fr d2 e2 fresh False ln(1) show ?thesis
            by (intro recv_fail [of line t body fin]) simp_all
        qed
      qed
    qed
  qed
qed

fun sent :: "event list \<Rightarrow> string list" where
  "sent [] = []"
| "sent (Send b # es) = b # sent es"
| "sent (e # es) = sent es"

fun received :: "event list \<Rightarrow> string list" where
  "received [] = []"
| "received (Recv l None # es) = l # received es"
| "received (e # es) = received es"

lemma sent_append [simp]: "sent (xs @ ys) = sent xs @ sent ys"
  by (induction xs rule: sent.induct) simp_all

lemma received_append [simp]: "received (xs @ ys) = received xs @ received ys"
  by (induction xs rule: received.induct) simp_all

lemma sent_spooled [simp]: "sent (spooled t body) = []"
  by (induction body) simp_all

lemma received_spooled [simp]: "received (spooled t body) = body"
  by (induction body) simp_all

lemma in_spooled: "x \<in> set (spooled t body) \<Longrightarrow> (\<exists>l. x = Recv l None) \<or> (\<exists>l. x = Appended t l None)"
  by (induction body) auto

lemma emitted_append [simp]: "trace w' = trace w @ evs \<Longrightarrow> emitted w w' = evs"
  by (simp add: emitted_def)

lemma sent_relay [simp]:
  "sent (relay out err) = (if out = [] then [] else [out]) @ (if err = [] then [] else [err])"
  by (simp add: relay_def)

lemma sent_verdict [simp]:
  "sent (verdict st) =
     (case st of None \<Rightarrow> [] | Some e \<Rightarrow> [''error: script execution failed: '' @ Error e @ [NL]])"
  by (simp add: verdict_def split: option.splits)

lemma in_relay: "x \<in> set (relay out err) \<Longrightarrow> \<exists>b. x = Send b"
  by (auto simp: relay_def split: if_splits)

lemma in_verdict: "x \<in> set (verdict st) \<Longrightarrow> \<exists>b. x = Send b"
  by (auto simp: verdict_def split: option.splits)

lemma in_read_failure: "x \<in> set (read_failure d e) \<Longrightarrow> x = Recv d (Some e) \<or> (\<exists>b. x = Send b)"
  by (auto simp: read_failure_def split: if_splits)

lemma in_write_failure:
  "x \<in> set (write_failure t l p e) \<Longrightarrow>
     x = Recv l None \<or> x = Appended t p (Some e) \<or> (\<exists>b. x = Send b)"
  by (auto simp: write_failure_def)

lemma in_marker_failure: "x \<in> set (marker_failure d e) \<Longrightarrow> x = Recv d (Some e) \<or> (\<exists>b. x = Send b)"
  by (auto simp: marker_failure_def split: if_splits)

lemma run_deferred_effect:
  "trace (run_deferred ds w) = trace w @ map Removed ds \<and> environ (run_deferred ds w) = environ w"
  by (induction ds arbitrary: w) simp_all

lemma loop_Proceed: "cycle s w = (Proceed, w') \<Longrightarrow> HandleConnection_loop s w = HandleConnection_loop s w'"
  by (subst HandleConnection_loop.simps) simp

lemma loop_Return:
  "cycle s w = (Return r, w') \<Longrightarrow>
     HandleConnection_loop s w = (r, run_deferred (deferred w') (w'\<lparr>deferred := []\<rparr>))"
  by (subst HandleConnection_loop.simps) simp

lemma received_relay [simp]: "received (relay out err) = []"
  by (simp add: relay_def)

lemma received_verdict [simp]: "received (verdict st) = []"
  by (simp add: verdict_def split: option.splits)

lemma loop_rule [consumes 1, case_names return proceed]:
  assumes "HandleConnection_loop s w = (r, w'')"
    and return: "\<And>w w'. cycle s w = (Return r, w') \<Longrightarrow>
        w'' = run_deferred (deferred w') (w'\<lparr>deferred := []\<rparr>) \<Longrightarrow> P w"
    and proceed: "\<And>w w1. cycle s w = (Proceed, w1) \<Longrightarrow> HandleConnection_loop s w1 = (r, w'') \<Longrightarrow>
        P w1 \<Longrightarrow> P w"
  shows "P w"
  using assms(1)
proof (induction "length (pending w)" arbitrary: w rule: less_induct)
  case less
  obtain c w1 where cy: "cycle s w = (c, w1)" by (metis prod.exhaust)
  show ?case
  proof (cases c)
    case Proceed
    from cy Proceed less.prems have l1: "HandleConnection_loop s w1 = (r, w'')"
      by (simp add: loop_Proceed)
    from cy Proceed have "length (pending w1) < length (pending w)"
      by (simp add: cycle_pending)
    from less.hyps [OF this l1] have "P w1" .
    with cy Proceed l1 show ?thesis by (auto intro: proceed)
  next
    case (Return r')
    with cy less.prems loop_Return [of s w r' w1] show ?thesis
      by (auto intro: return)
  qed
qed

lemma accept_loop_nil: "fst (accept_loop s g rounds) \<noteq> Returns (Some e)"
  by (induction s g rounds rule: accept_loop.induct) (auto split: accepted.splits)

lemma cycle_trace:
  assumes "cycle s w = (c, w')"
  shows "\<exists>evs. trace w' = trace w @ evs"
  using assms
proof (cases rule: cycle_cases)
  case (exec l t body cl w3)
  from execute_effect [OF exec(10)] exec(4) show ?thesis by auto
qed auto

lemma loop_trace:
  assumes "HandleConnection_loop s w = (r, w'')"
  shows "\<exists>evs. trace w'' = trace w @ evs"
  using assms
proof (induction rule: loop_rule)
  case (return w w')
  from cycle_trace [OF return(1)] return(2) show ?case
    by (auto simp: run_deferred_effect)
next
  case (proceed w w1)
  from cycle_trace [OF proceed(1)] proceed(3) show ?case by auto
qed

lemma emitted_trans:
  assumes "trace w1 = trace w @ a" and "trace w2 = trace w1 @ b"
  shows "emitted w w2 = a @ emitted w1 w2"
  using assms by (simp add: emitted_def)

lemma cycle_CreateFailed:
  assumes "cycle s w = (c, w')"
  shows "CreateFailed e \<in> set (emitted w w') \<longleftrightarrow> c = Return (Some e)"
  using assms
proof (cases rule: cycle_cases)
  case (marker_fail d e)
  then show ?thesis by (auto dest: in_marker_failure)
next
  case empty
  then show ?thesis by simp
next
  case (temp_fail l e)
  then show ?thesis by auto
next
  case (recv_fail l t body fin)
  then show ?thesis by (auto dest: in_spooled in_read_failure in_write_failure)
next
  case (exec l t body cl w3)
  from execute_effect [OF exec(10)] exec(4) show ?thesis
    by (auto dest: in_spooled in_relay in_verdict split: option.splits)
qed

lemma loop_CreateFailed:
  assumes "HandleConnection_loop s w = (r, w'')"
  shows "CreateFailed e \<in> set (emitted w w'') \<longleftrightarrow> r = Some e"
  using assms
proof (induction rule: loop_rule)
  case (return w w')
  from cycle_trace [OF return(1)] obtain evs where t: "trace w' = trace w @ evs" ..
  with return(2) have "emitted w w'' = emitted w w' @ map Removed (deferred w')"
    by (simp add: run_deferred_effect emitted_def)
  with cycle_CreateFailed [OF return(1), of e] show ?case by auto
next
  case (proceed w w1)
  from cycle_trace [OF proceed(1)] obtain a where t: "trace w1 = trace w @ a" ..
  from loop_trace [OF proceed(2)] obtain b where t2: "trace w'' = trace w1 @ b" ..
  from emitted_trans [OF t t2] t have "emitted w w'' = emitted w w1 @ emitted w1 w''"
    by simp
  with cycle_CreateFailed [OF proceed(1), of e] proceed(3) show ?case by auto
qed
























lemma parseServiceArg_resolve:
  assumes "resolveShell h (Split arg CHR '':'' ! 0) = Inl e"
  shows "\<exists>e'. parseServiceArg h arg da dp = Inl e'"
  using assms
  by (auto simp: parseServiceArg_def Let_def split: sum.splits prod.splits)

section \<open>A run to evaluate\<close>

text \<open>
  A client sends the marker \<open>M\<close>, the script \<open>ls\<close> and the marker again. The first
  child prints on both streams and exits with status 1, every later one exits with
  status 0; the temporary directory is empty, and the random string of a temporary name
  comes out as \<open>1\<close> twice. The machine has \<^verbatim>\<open>/bin/sh\<close>, a file \<^verbatim>\<open>tools/sh\<close> under the
  working directory \<^verbatim>\<open>/root\<close>, and \<^verbatim>\<open>zsh\<close> on the search path.
\<close>

definition demo_service :: "(string \<times> string) list \<Rightarrow> Service" where
  "demo_service ex =
     \<lparr>shell = ''sh'', cmd = ''/bin/sh'', addr = ''127.0.0.1'', port = 50135, proto = ''tcp'',
      expo = ex\<rparr>"

definition demo_input :: string where
  "demo_input = ''M'' @ [NL] @ ''ls'' @ [NL] @ ''M'' @ [NL]"

definition demo_state :: "string \<Rightarrow> go_error \<Rightarrow> state" where
  "demo_state input fin =
     \<lparr>pending = input, ending = fin, files = Map.empty,
      temps = [Inr ''1'', Inr ''1''], wfaults = [],
      run = (\<lambda>k c env fs.
        if k = 0 then Runs ''out'' ''err'' (Some (ErrorString ''exit status 1''))
        else Runs ''done'' [] None),
      spawned = 0, environ = [''HOME=/root''], deferred = [], trace = []\<rparr>"

lemmas demo_defs =
  demo_service_def demo_input_def demo_state_def cycle_def reader_ReadString_def emit_def
  os_CreateTemp_def receive.simps defer_Remove_def file_WriteString_def file_append_def
  execute_def file_Close_def cmd_Start_def CommandContext_def cmd_environ_def conn_Write_def
  os_Remove_def Let_def emitted_def

lemmas demo_loop = demo_defs HandleConnection_def HandleConnection_loop.simps run_deferred.simps

definition demo_host :: host where
  "demo_host =
     \<lparr>Stat = (\<lambda>p. if p = ''/bin/sh'' \<or> p = ''tools/sh'' then None else Some ErrNotExist),
      LookPath = (\<lambda>p. if p = ''zsh'' then Inr ''/bin/zsh''
                        else if p = ''/bin/sh'' \<or> p = ''/bin/zsh'' then Inr p
                        else Inl (ErrorString ''executable file not found in $PATH'')),
      Abs = (\<lambda>p. Inr (''/root/'' @ p))\<rparr>"

lemmas host_defs =
  demo_host_def resolveShell_def TrimSpace_def TrimLeft.simps TrimRight.simps space_prefix_def
  space_suffix_def spaces_def IsAbs_def os_IsNotExist_def quote_def Let_def

section \<open>Properties of the specification\<close>






text \<open>
  C3. In a pass of the loop that starts the shell, the lines read are the marker line, the
  body and the closing line; no line of the body is the marker once its newline is
  stripped, the closing line is; and the file named in the command holds the body, line by
  line with the newlines, and not the closing line.
\<close>

theorem spool_content:
  assumes "cycle s w = (c, w')" and "Started cm env fs r \<in> set (emitted w w')"
  shows "\<exists>M body closing tmp.
      received (emitted w w') = (M @ [NL]) # body @ [closing] \<and> M \<noteq> [] \<and>
      (\<forall>l\<in>set body. trim_line l \<noteq> M) \<and> trim_line closing = M \<and>
      Args cm = [cmd s, ''-l'', tmp] \<and> fs tmp = Some (concat body)"
  using assms(1)
proof (cases rule: cycle_cases)
  case (marker_fail d e)
  with assms(2) show ?thesis by (auto dest: in_marker_failure)
next
  case empty
  with assms(2) show ?thesis by simp
next
  case (temp_fail l e)
  with assms(2) show ?thesis by simp
next
  case (recv_fail l t body fin)
  with assms(2) show ?thesis
    by (auto dest: in_spooled in_read_failure in_write_failure)
next
  case (exec l t body cl w3)
  from execute_effect [OF exec(10)] exec(4) assms(2)
  have cm: "cm = shell_command s t" and fs: "fs = files w3"
    and rc: "received (emitted w w') = l # body @ [cl]"
    by (auto dest: in_spooled in_relay in_verdict)
  from exec(2) have l: "l = butlast l @ [NL]" .
  show ?thesis
    apply (rule exI [of _ "butlast l"], rule exI [of _ body], rule exI [of _ cl], rule exI [of _ t])
    using rc l exec(1,5,6,7) cm fs by (simp add: shell_command_def)
qed

theorem spool_content_witness:
  "\<exists>M body closing.
      received (emitted (demo_state demo_input EOF)
        (snd (cycle (demo_service []) (demo_state demo_input EOF)))) = (M @ [NL]) # body @ [closing] \<and>
      M \<noteq> [] \<and> trim_line closing = M"
proof -
  let ?w = "demo_state demo_input EOF"
  let ?r = "cycle (demo_service []) ?w"
  have c: "?r = (fst ?r, snd ?r)" by simp
  have "\<exists>fs. Started \<lparr>Path = ''/bin/sh'', Args = [''/bin/sh'', ''-l'', ''/tmp/relay-script-1''], Env = None\<rparr>
      [''HOME=/root''] fs None \<in> set (emitted ?w (snd ?r))"
    by (simp add: demo_defs)
  then obtain fs where "Started \<lparr>Path = ''/bin/sh'', Args = [''/bin/sh'', ''-l'', ''/tmp/relay-script-1''], Env = None\<rparr>
      [''HOME=/root''] fs None \<in> set (emitted ?w (snd ?r))" ..
  from spool_content [OF c this] show ?thesis by blast
qed



text \<open>
  C5. Once a round of the accept loop finds the context cancelled, \<^verbatim>\<open>ListenAndServe\<close>
  returns nil, whatever \<^verbatim>\<open>Accept\<close> returned in that round, an error or a connection, and
  whatever the rounds before it brought.
\<close>

theorem cancellation_returns_nil:
  assumes "(a, True) \<in> set rounds"
  shows "ListenAndServe s None rounds = Returns None"
proof -
  have "fst (accept_loop s g rounds) = Returns None" for g
    using assms
  proof (induction rounds arbitrary: g)
    case Nil
    then show ?case by simp
  next
    case (Cons x rounds)
    obtain a' d where x: "x = (a', d)" by (cases x)
    show ?case
    proof (cases d)
      case True
      with x show ?thesis by simp
    next
      case False
      with x Cons.prems have "(a, True) \<in> set rounds" by auto
      with Cons.IH x False show ?thesis by (cases a') simp_all
    qed
  qed
  then show ?thesis by (simp add: ListenAndServe_def)
qed

theorem cancellation_returns_nil_witness:
  "ListenAndServe (demo_service [])  None
     [(AcceptFails (ErrorString ''timeout''), False), (Accepted (demo_state demo_input EOF), True)] = Returns None \<and>
   ListenAndServe (demo_service [])  None
     [(AcceptFails (ErrorString ''closed''), True)] = Returns None"
  using cancellation_returns_nil [of "Accepted (demo_state demo_input EOF)"
      "[(AcceptFails (ErrorString ''timeout''), False), (Accepted (demo_state demo_input EOF), True)]" "demo_service []"]
    cancellation_returns_nil [of "AcceptFails (ErrorString ''closed'')"
      "[(AcceptFails (ErrorString ''closed''), True)]" "demo_service []"]
  by simp

text \<open>
  C6. In a pass of the loop that ran the script, what the handler writes to the client is
  the captured standard output, if there is any, then the captured standard error, if
  there is any, and after them only the line reporting a failed exit.
\<close>

theorem relay_order:
  assumes "cycle s w = (c, w')" and "Exited out err st \<in> set (emitted w w')"
  shows "sent (emitted w w') =
     (if out = [] then [] else [out]) @ (if err = [] then [] else [err]) @
     (case st of None \<Rightarrow> [] | Some e \<Rightarrow> [''error: script execution failed: '' @ Error e @ [NL]])"
  using assms(1)
proof (cases rule: cycle_cases)
  case (marker_fail d e)
  with assms(2) show ?thesis by (auto dest: in_marker_failure)
next
  case empty
  with assms(2) show ?thesis by simp
next
  case (temp_fail l e)
  with assms(2) show ?thesis by simp
next
  case (recv_fail l t body fin)
  with assms(2) show ?thesis
    by (auto dest: in_spooled in_read_failure in_write_failure)
next
  case (exec l t body cl w3)
  from execute_effect [OF exec(10)] exec(4) assms(2) show ?thesis
    by (auto dest: in_spooled in_relay in_verdict)
qed

theorem relay_order_witness:
  "sent (emitted (demo_state demo_input EOF) (snd (cycle (demo_service []) (demo_state demo_input EOF)))) =
     [''out'', ''err'', ''error: script execution failed: exit status 1'' @ [NL]]"
proof -
  let ?w = "demo_state demo_input EOF"
  let ?r = "cycle (demo_service []) ?w"
  have c: "?r = (fst ?r, snd ?r)" by simp
  have ex: "Exited ''out'' ''err'' (Some (ErrorString ''exit status 1'')) \<in> set (emitted ?w (snd ?r))"
    by (simp add: demo_defs)
  from relay_order [OF c ex] show ?thesis by simp
qed




text \<open>
  C8. \<^verbatim>\<open>resolveShell\<close> trims white space before anything else, so an absolute path with
  white space after it is not returned as it is.
\<close>

theorem shell_resolution_counterexample:
  "IsAbs ''/bin/sh '' \<and> resolveShell demo_host ''/bin/sh '' = Inr ''/bin/sh''"
  by (simp add: host_defs)

text \<open>
  C8, amended. With the white space around it trimmed, an empty name is an error; an
  absolute path is returned as it is; a relative path that \<^verbatim>\<open>os.Stat\<close> finds is returned as
  \<^verbatim>\<open>filepath.Abs\<close> gives it, or with the error of that; one that \<^verbatim>\<open>os.Stat\<close> reports
  missing is looked up with \<^verbatim>\<open>exec.LookPath\<close>, and is an error when that fails; and any other
  error of \<^verbatim>\<open>os.Stat\<close> is an error without a look at the search path. An argument whose
  shell does not resolve, and a shell that \<^verbatim>\<open>Make\<close> cannot look up, give no service.
\<close>

theorem shell_resolution:
  "(TrimSpace sh = [] \<longrightarrow> resolveShell h sh = Inl (ErrorString ''shell name is empty'')) \<and>
   (IsAbs (TrimSpace sh) \<longrightarrow> resolveShell h sh = Inr (TrimSpace sh)) \<and>
   (TrimSpace sh \<noteq> [] \<and> \<not> IsAbs (TrimSpace sh) \<and> Stat h (TrimSpace sh) = None \<longrightarrow>
      resolveShell h sh =
        (case Abs h (TrimSpace sh) of
           Inl e \<Rightarrow> Inl (Wrapped (''cannot resolve path '' @ quote (TrimSpace sh)) e)
         | Inr p \<Rightarrow> Inr p)) \<and>
   (TrimSpace sh \<noteq> [] \<and> \<not> IsAbs (TrimSpace sh) \<and> os_IsNotExist (Stat h (TrimSpace sh)) \<longrightarrow>
      resolveShell h sh =
        (case LookPath h (TrimSpace sh) of
           Inl e \<Rightarrow> Inl (ErrorString (''shell '' @ quote (TrimSpace sh) @ '' not found''))
         | Inr p \<Rightarrow> Inr p)) \<and>
   (TrimSpace sh \<noteq> [] \<and> \<not> IsAbs (TrimSpace sh) \<and> Stat h (TrimSpace sh) = Some e \<and>
      \<not> errors_Is e ErrNotExist \<longrightarrow>
      resolveShell h sh = Inl (Wrapped (''failed to stat '' @ quote (TrimSpace sh)) e)) \<and>
   (resolveShell h (Split arg CHR '':'' ! 0) = Inl e \<longrightarrow>
      (\<exists>e'. service_for h ex da dp arg = Inl e')) \<and>
   (LookPath h p = Inl e \<longrightarrow> (\<exists>e'. Make h p a n ex = Inl e'))"
proof (intro conjI impI)
  show "resolveShell h sh = Inl (ErrorString ''shell name is empty'')" if "TrimSpace sh = []"
    using that by (simp add: resolveShell_def)
  show "resolveShell h sh = Inr (TrimSpace sh)" if "IsAbs (TrimSpace sh)"
  proof -
    from that have "TrimSpace sh \<noteq> []" by (auto simp: IsAbs_def)
    with that show ?thesis by (simp add: resolveShell_def Let_def)
  qed
  show "resolveShell h sh =
        (case Abs h (TrimSpace sh) of
           Inl e \<Rightarrow> Inl (Wrapped (''cannot resolve path '' @ quote (TrimSpace sh)) e)
         | Inr p \<Rightarrow> Inr p)"
    if "TrimSpace sh \<noteq> [] \<and> \<not> IsAbs (TrimSpace sh) \<and> Stat h (TrimSpace sh) = None"
    using that by (simp add: resolveShell_def Let_def os_IsNotExist_def split: sum.splits)
  show "resolveShell h sh =
        (case LookPath h (TrimSpace sh) of
           Inl e \<Rightarrow> Inl (ErrorString (''shell '' @ quote (TrimSpace sh) @ '' not found''))
         | Inr p \<Rightarrow> Inr p)"
    if "TrimSpace sh \<noteq> [] \<and> \<not> IsAbs (TrimSpace sh) \<and> os_IsNotExist (Stat h (TrimSpace sh))"
    using that by (simp add: resolveShell_def Let_def split: sum.splits)
  show "resolveShell h sh = Inl (Wrapped (''failed to stat '' @ quote (TrimSpace sh)) e)"
    if "TrimSpace sh \<noteq> [] \<and> \<not> IsAbs (TrimSpace sh) \<and> Stat h (TrimSpace sh) = Some e \<and>
      \<not> errors_Is e ErrNotExist"
    using that by (simp add: resolveShell_def Let_def os_IsNotExist_def)
  show "\<exists>e'. service_for h ex da dp arg = Inl e'"
    if "resolveShell h (Split arg CHR '':'' ! 0) = Inl e"
    using parseServiceArg_resolve [OF that, of da dp] by (auto simp: service_for_def)
  show "\<exists>e'. Make h p a n ex = Inl e'" if "LookPath h p = Inl e"
    using that by (simp add: Make_def)
qed

theorem shell_resolution_witness:
  "resolveShell demo_host ''/bin/sh'' = Inr ''/bin/sh'' \<and>
   resolveShell demo_host ''tools/sh'' = Inr ''/root/tools/sh'' \<and>
   resolveShell demo_host '' zsh'' = Inr ''/bin/zsh'' \<and>
   (\<exists>e'. service_for demo_host [] ''127.0.0.1'' 50135 ''fish'' = Inl e') \<and>
   (\<exists>e'. Make demo_host ''/bin/fish'' ''127.0.0.1'' 50135 [] = Inl e')"
proof -
  have t: "TrimSpace ''/bin/sh'' = ''/bin/sh''" "TrimSpace ''tools/sh'' = ''tools/sh''"
    "TrimSpace '' zsh'' = ''zsh''" "TrimSpace ''fish'' = ''fish''"
    by (simp_all add: host_defs)
  have f: "resolveShell demo_host (Split ''fish'' CHR '':'' ! 0) =
      Inl (ErrorString (''shell '' @ quote ''fish'' @ '' not found''))"
    using shell_resolution [where sh = "''fish''" and h = demo_host] t
    by (simp add: demo_host_def IsAbs_def os_IsNotExist_def)
  have l: "LookPath demo_host ''/bin/fish'' = Inl (ErrorString ''executable file not found in $PATH'')"
    by (simp add: demo_host_def)
  have sf: "\<exists>e'. service_for demo_host [] ''127.0.0.1'' 50135 ''fish'' = Inl e'"
    using shell_resolution [where h = demo_host and arg = "''fish''" and ex = "[]"
        and da = "''127.0.0.1''" and dp = 50135
        and e = "ErrorString (''shell '' @ quote ''fish'' @ '' not found'')"] f
    by blast
  have mk: "\<exists>e'. Make demo_host ''/bin/fish'' ''127.0.0.1'' 50135 [] = Inl e'"
    using shell_resolution [where h = demo_host and p = "''/bin/fish''" and a = "''127.0.0.1''"
        and n = 50135 and ex = "[]" and e = "ErrorString ''executable file not found in $PATH''"] l
    by blast
  show ?thesis
    using shell_resolution [where sh = "''/bin/sh''" and h = demo_host]
      shell_resolution [where sh = "''tools/sh''" and h = demo_host]
      shell_resolution [where sh = "'' zsh''" and h = demo_host]
      t sf mk
    by (simp add: demo_host_def IsAbs_def os_IsNotExist_def)
qed

text \<open>
  C9. \<^verbatim>\<open>HandleConnection\<close> returns an error exactly when \<^verbatim>\<open>os.CreateTemp\<close> failed, and then
  that error; every other way out of it returns nil. \<^verbatim>\<open>ListenAndServe\<close>, once it listens,
  returns no error at all, whatever its handlers returned.
\<close>

theorem handler_error_is_CreateTemp:
  "(fst (HandleConnection s w) = Some e \<longleftrightarrow>
      CreateFailed e \<in> set (emitted w (snd (HandleConnection s w)))) \<and>
   ListenAndServe s None rounds \<noteq> Returns (Some e')"
proof -
  let ?w0 = "w\<lparr>deferred := []\<rparr>"
  have "HandleConnection_loop s ?w0 = (fst (HandleConnection s w), snd (HandleConnection s w))"
    by (simp add: HandleConnection_def)
  from loop_CreateFailed [OF this, of e]
  have "CreateFailed e \<in> set (emitted w (snd (HandleConnection s w))) \<longleftrightarrow> fst (HandleConnection s w) = Some e"
    by (simp add: emitted_def)
  then show ?thesis by (auto simp: ListenAndServe_def accept_loop_nil)
qed

theorem handler_error_is_CreateTemp_witness:
  "fst (HandleConnection (demo_service [])
      ((demo_state demo_input EOF)\<lparr>temps := [Inl (ErrorString ''no space left'')]\<rparr>)) =
     Some (ErrorString ''no space left'') \<and>
   fst (HandleConnection (demo_service []) (demo_state demo_input EOF)) = None"
proof -
  let ?w = "(demo_state demo_input EOF)\<lparr>temps := [Inl (ErrorString ''no space left'')]\<rparr>"
  have "CreateFailed (ErrorString ''no space left'') \<in>
      set (emitted ?w (snd (HandleConnection (demo_service []) ?w)))"
    by (simp add: demo_loop)
  moreover have "CreateFailed (ErrorString ''exit status 1'') \<notin>
      set (emitted (demo_state demo_input EOF)
        (snd (HandleConnection (demo_service []) (demo_state demo_input EOF))))"
    by (simp add: demo_loop)
  moreover have "fst (HandleConnection (demo_service []) (demo_state demo_input EOF)) = None \<or>
    fst (HandleConnection (demo_service []) (demo_state demo_input EOF)) = Some (ErrorString ''exit status 1'')"
    by (simp add: demo_loop)
  ultimately show ?thesis
    using handler_error_is_CreateTemp [of "demo_service []" ?w "ErrorString ''no space left''"]
      handler_error_is_CreateTemp [of "demo_service []" "demo_state demo_input EOF" "ErrorString ''exit status 1''"]
    by auto
qed



end
